theory Spec2Isabelle
  imports Main
begin

section \<open>The IO relay of \<^verbatim>\<open>packages/jstack/src/server/io.ts\<close>\<close>

text \<open>
  The class \<^verbatim>\<open>IO\<close> holds a handle to a Redis client, a key prefix fixed at
  construction and the room targeted by the next \<^verbatim>\<open>emit\<close>. Its methods are
  embedded as functions on the instance and on the observable world around it: the
  calls the instance makes to the Redis client and the lines it hands to the logger.
  The Redis client and \<^verbatim>\<open>JSON.stringify\<close> are not code of the class; what they
  answer, a value or a thrown failure, is a parameter of every operation (an \<open>env\<close>),
  so each theorem holds whatever the store answers. The logger only records; it does
  not throw. An \<^verbatim>\<open>async\<close> method is embedded as the call awaited to its end, one
  call at a time: a rejected promise is the result \<open>Inl\<close>, a fulfilled one is
  \<open>Inr\<close>.
\<close>

subsection \<open>Data\<close>

text \<open>A thrown value, told apart by its message.\<close>

datatype exn = Exn string

text \<open>The options object handed to \<^verbatim>\<open>new Redis\<close>.\<close>

record redis_config =
  token :: string
  url :: string
  automaticDeserialization :: bool

text \<open>The constructor's \<^verbatim>\<open>options: { prefix?: string }\<close>; an omitted property is \<open>None\<close>.\<close>

record options =
  options_prefix :: "string option"

text \<open>The fields of an \<^verbatim>\<open>IO\<close> instance; \<^verbatim>\<open>null\<close> is \<open>None\<close>.\<close>

record io =
  targetRoom :: "string option"
  redis :: redis_config
  prefix :: string

text \<open>What the logger of \<^verbatim>\<open>jstack-shared\<close> is given, one entry for each call.\<close>

datatype 'v diag =
    Warn string
  | Error string exn
  | Success string "'v list"

text \<open>
  The world outside the instance: every \<^verbatim>\<open>redis.publish(channel, message)\<close> and
  every \<^verbatim>\<open>redis.smembers(key)\<close> call made so far, whether it then succeeded or not,
  and the logger's lines, all oldest first.
\<close>

record 'v world =
  publish_calls :: "(string \<times> string) list"
  smembers_calls :: "string list"
  diagnostics :: "'v diag list"

text \<open>
  What the platform answers: \<^verbatim>\<open>JSON.stringify\<close> on an array of values (it throws on
  a cyclic value or a BigInt), \<^verbatim>\<open>redis.publish\<close> (the number of receivers, or a
  failure) and \<^verbatim>\<open>redis.smembers\<close> (the members, or a failure).
\<close>

record 'v env =
  JSON_stringify :: "'v list \<Rightarrow> exn + string"
  redis_publish :: "string \<Rightarrow> string \<Rightarrow> exn + nat"
  redis_smembers :: "string \<Rightarrow> exn + string list"

subsection \<open>Truthiness\<close>

text \<open>
  \<^verbatim>\<open>!x\<close> for \<^verbatim>\<open>x\<close> of type \<^verbatim>\<open>string | null | undefined\<close>: the absent value and
  the empty string are falsy, every other string is truthy.
\<close>

fun falsy :: "string option \<Rightarrow> bool" where
  "falsy None = True"
| "falsy (Some s) = (s = [])"

text \<open>\<^verbatim>\<open>x || d\<close> on the same type, with a string default.\<close>

fun or_else :: "string option \<Rightarrow> string \<Rightarrow> string" where
  "or_else None d = d"
| "or_else (Some s) d = (if s = [] then d else s)"

subsection \<open>Operations\<close>

text \<open>\<^verbatim>\<open>constructor(redisUrl, redisToken, options = {})\<close>\<close>

definition constructor :: "string \<Rightarrow> string \<Rightarrow> options \<Rightarrow> io" where
  "constructor redisUrl redisToken opts =
     \<lparr> targetRoom = None,
       redis = \<lparr> token = redisToken, url = redisUrl, automaticDeserialization = True \<rparr>,
       prefix = or_else (options_prefix opts) ''io'' \<rparr>"

text \<open>\<^verbatim>\<open>formatRoomName(room)\<close>: the template \<^verbatim>\<open>`${this.prefix}:${room}`\<close>.\<close>

definition formatRoomName :: "io \<Rightarrow> string \<Rightarrow> string" where
  "formatRoomName this room = prefix this @ '':'' @ room"

definition logger :: "'v diag \<Rightarrow> 'v world \<Rightarrow> 'v world" where
  "logger d w = w\<lparr> diagnostics := diagnostics w @ [d] \<rparr>"

text \<open>
  The \<^verbatim>\<open>try\<close> block of \<^verbatim>\<open>emit\<close>. It reads the instance and does not assign to it.
  Past the guard the target is a string, not \<^verbatim>\<open>null\<close>. The publish call is on record
  before the store answers it.
\<close>

definition emit_try :: "'v env \<Rightarrow> 'v \<Rightarrow> 'v \<Rightarrow> io \<Rightarrow> 'v world \<Rightarrow> (exn + unit) \<times> 'v world" where
  \<open>emit_try env event data this w =
     (if falsy (targetRoom this) then
        (Inr (), logger (Warn ''IO emit called without setting a target room first'') w)
      else
        (let room = the (targetRoom this);
             roomName = formatRoomName this room
         in (case JSON_stringify env [event, data] of
               Inl error \<Rightarrow> (Inl error, w)
             | Inr payload \<Rightarrow>
                 (let w1 = w\<lparr> publish_calls := publish_calls w @ [(roomName, payload)] \<rparr>
                  in (case redis_publish env roomName payload of
                        Inl error \<Rightarrow> (Inl error, w1)
                      | Inr n \<Rightarrow>
                          (Inr (),
                           logger (Success (''IO emitted to room "'' @ room @ ''":'')
                                     [event, data]) w1))))))\<close>

text \<open>
  \<^verbatim>\<open>emit(event, data)\<close>: the \<^verbatim>\<open>try\<close> block, the \<^verbatim>\<open>catch\<close> clause that logs and
  throws the same value again, and the \<^verbatim>\<open>finally\<close> clause that resets the target.
\<close>

definition emit :: "'v env \<Rightarrow> 'v \<Rightarrow> 'v \<Rightarrow> io \<times> 'v world \<Rightarrow> (exn + unit) \<times> io \<times> 'v world" where
  "emit env event data s =
     (let this = fst s;
          (r, w1) = emit_try env event data this (snd s);
          (r', w2) = (case r of
                        Inl error \<Rightarrow> (Inl error, logger (Error ''Failed to emit event'' error) w1)
                      | Inr u \<Rightarrow> (Inr u, w1))
      in (r', this\<lparr> targetRoom := None \<rparr>, w2))"

text \<open>\<^verbatim>\<open>to(room)\<close>; it returns \<^verbatim>\<open>this\<close>, so the state after it is the chained receiver.\<close>

definition to :: "string \<Rightarrow> io \<times> 'v world \<Rightarrow> io \<times> 'v world" where
  "to room s =
     (let w1 = (if falsy (Some room)
                then logger (Warn ''Empty room name provided to IO.to()'') (snd s)
                else snd s)
      in ((fst s)\<lparr> targetRoom := Some room \<rparr>, w1))"

text \<open>\<^verbatim>\<open>getClientsInRoom(room)\<close>\<close>

definition getClientsInRoom :: "'v env \<Rightarrow> string \<Rightarrow> io \<times> 'v world \<Rightarrow> (exn + string list) \<times> io \<times> 'v world" where
  \<open>getClientsInRoom env room s =
     (let this = fst s; w = snd s;
          roomName = formatRoomName this room;
          key = roomName @ '':clients'';
          w1 = w\<lparr> smembers_calls := smembers_calls w @ [key] \<rparr>
      in case redis_smembers env key of
           Inr clients \<Rightarrow> (Inr clients, this, w1)
         | Inl error \<Rightarrow>
             (Inr [], this,
              logger (Error (''Failed to get clients in room "'' @ room @ ''"'') error) w1))\<close>

text \<open>\<^verbatim>\<open>close()\<close>: the \<^verbatim>\<open>try\<close> block is empty.\<close>

definition close :: "io \<times> 'v world \<Rightarrow> (exn + unit) \<times> io \<times> 'v world" where
  "close s = (Inr (), s)"

subsection \<open>What an emit sends and returns\<close>

text \<open>The calls an emit adds to the store's record, from the target it finds.\<close>

definition emitted :: "'v env \<Rightarrow> 'v \<Rightarrow> 'v \<Rightarrow> io \<Rightarrow> (string \<times> string) list" where
  "emitted env event data this =
     (case targetRoom this of
        None \<Rightarrow> []
      | Some room \<Rightarrow>
          if room = [] then []
          else (case JSON_stringify env [event, data] of
                  Inl error \<Rightarrow> []
                | Inr payload \<Rightarrow> [(prefix this @ '':'' @ room, payload)]))"

text \<open>The result of an emit, from the target it finds.\<close>

definition emit_result :: "'v env \<Rightarrow> 'v \<Rightarrow> 'v \<Rightarrow> io \<Rightarrow> exn + unit" where
  "emit_result env event data this =
     (case targetRoom this of
        None \<Rightarrow> Inr ()
      | Some room \<Rightarrow>
          if room = [] then Inr ()
          else (case JSON_stringify env [event, data] of
                  Inl error \<Rightarrow> Inl error
                | Inr payload \<Rightarrow>
                    (case redis_publish env (prefix this @ '':'' @ room) payload of
                       Inl error \<Rightarrow> Inl error
                     | Inr n \<Rightarrow> Inr ())))"

subsection \<open>Reachable states\<close>

text \<open>
  The states an instance and its world can be in: after construction, with nothing yet
  sent or logged, and after any method call on a reachable state, whatever the platform
  answered.
\<close>

inductive reachable :: "io \<times> 'v world \<Rightarrow> bool" where
  constructed:
    "reachable (constructor redisUrl redisToken opts,
                \<lparr> publish_calls = [], smembers_calls = [], diagnostics = [] \<rparr>)"
| after_to: "reachable s \<Longrightarrow> reachable (to room s)"
| after_emit: "reachable s \<Longrightarrow> reachable (snd (emit env event data s))"
| after_getClientsInRoom: "reachable s \<Longrightarrow> reachable (snd (getClientsInRoom env room s))"
| after_close: "reachable s \<Longrightarrow> reachable (snd (close s))"

subsection \<open>JSON values and their serialization\<close>

text \<open>
  \<^verbatim>\<open>JSON.stringify\<close> is a built-in of the language, not code of the class. It is
  modelled here after ECMA-262 (SerializeJSONProperty, QuoteJSONString) on the values
  that JSON can represent: \<^verbatim>\<open>null\<close>, booleans, integral numbers, strings, arrays and
  plain objects. A string is its sequence of code units, here those below 256, one
  \<open>char\<close> each. An object is the list of its own enumerable properties in the order
  the language enumerates them.
\<close>

datatype json =
    JNull
  | JBool bool
  | JNumber int
  | JString string
  | JArray "json list"
  | JObject "(string \<times> json) list"

text \<open>The digit characters, decimal and lower-case hexadecimal.\<close>

definition digit_char :: "int \<Rightarrow> char" where
  "digit_char d = char_of (48 + d)"

definition hex_char :: "nat \<Rightarrow> char" where
  "hex_char d = (if d < 10 then char_of (48 + d) else char_of (87 + d))"

text \<open>The decimal digits of a number that is not negative, most significant first.\<close>

function decimal :: "int \<Rightarrow> string" where
  "decimal n = (if n < 10 then [digit_char n] else decimal (n div 10) @ [digit_char (n mod 10)])"
  by pat_completeness auto
termination
  by (relation "measure nat") auto

text \<open>Number::toString on an integral number below \<open>10\<^sup>2\<^sup>1\<close> in size: its decimal digits.\<close>

definition number_to_string :: "int \<Rightarrow> string" where
  "number_to_string i = (if i < 0 then ''-'' @ decimal (- i) else decimal i)"

text \<open>
  One code unit inside a quoted string: the short escapes of the table, \<^verbatim>\<open>\u00xx\<close>
  in lower-case hexadecimal for the other control characters, the unit itself otherwise.
\<close>

definition quote_code_unit :: "char \<Rightarrow> string" where
  "quote_code_unit c =
     (if c = CHR 0x08 then [CHR 0x5C, CHR ''b'']
      else if c = CHR 0x09 then [CHR 0x5C, CHR ''t'']
      else if c = CHR 0x0A then [CHR 0x5C, CHR ''n'']
      else if c = CHR 0x0C then [CHR 0x5C, CHR ''f'']
      else if c = CHR 0x0D then [CHR 0x5C, CHR ''r'']
      else if c = CHR 0x22 then [CHR 0x5C, CHR 0x22]
      else if c = CHR 0x5C then [CHR 0x5C, CHR 0x5C]
      else if of_char c < (0x20 :: nat) then
        [CHR 0x5C, CHR ''u'', CHR ''0'', CHR ''0'',
         hex_char (of_char c div 16), hex_char (of_char c mod 16)]
      else [c])"

definition QuoteJSONString :: "string \<Rightarrow> string" where
  "QuoteJSONString s = [CHR 0x22] @ concat (map quote_code_unit s) @ [CHR 0x22]"

fun join_comma :: "string list \<Rightarrow> string" where
  "join_comma [] = []"
| "join_comma [x] = x"
| "join_comma (x # y # ys) = x @ '','' @ join_comma (y # ys)"

text \<open>
  SerializeJSONProperty with no replacer and no indentation: no white space, the
  elements of an array and the members of an object separated by commas.
\<close>

fun json_stringify :: "json \<Rightarrow> string" where
  "json_stringify JNull = ''null''"
| "json_stringify (JBool b) = (if b then ''true'' else ''false'')"
| "json_stringify (JNumber i) = number_to_string i"
| "json_stringify (JString s) = QuoteJSONString s"
| "json_stringify (JArray vs) = ''['' @ join_comma (map json_stringify vs) @ '']''"
| "json_stringify (JObject kvs) =
     ''{'' @ join_comma (map (\<lambda>(k, v). QuoteJSONString k @ '':'' @ json_stringify v) kvs) @ ''}''"

subsection \<open>Reading JSON text\<close>

text \<open>
  \<^verbatim>\<open>JSON.parse\<close>, the other built-in, is what a subscriber decodes a message with.
  It is modelled after the JSON grammar of ECMA-262 as a recursive-descent reader:
  white space between tokens, the escapes of a string, numbers, arrays, objects. The
  result \<open>None\<close> stands for a text that \<^verbatim>\<open>JSON.parse\<close> rejects with a SyntaxError and
  also for a text whose value the datatype lacks: a number with a fraction or an
  exponent, or beyond the integers a double holds exactly, negative zero, an escaped
  code unit above 255.
\<close>

definition is_digit :: "char \<Rightarrow> bool" where
  "is_digit c = (48 \<le> (of_char c :: int) \<and> (of_char c :: int) \<le> 57)"

definition digit_val :: "char \<Rightarrow> int" where
  "digit_val c = of_char c - 48"

definition digits_value :: "string \<Rightarrow> int" where
  "digits_value ds = foldl (\<lambda>a c. 10 * a + digit_val c) 0 ds"

definition hex_val :: "char \<Rightarrow> nat option" where
  "hex_val c =
     (let n = (of_char c :: nat)
      in if 48 \<le> n \<and> n \<le> 57 then Some (n - 48)
         else if 97 \<le> n \<and> n \<le> 102 then Some (n - 87)
         else if 65 \<le> n \<and> n \<le> 70 then Some (n - 55)
         else None)"

definition is_ws :: "char \<Rightarrow> bool" where
  "is_ws c = (c = CHR 0x20 \<or> c = CHR 0x09 \<or> c = CHR 0x0A \<or> c = CHR 0x0D)"

definition skip_ws :: "string \<Rightarrow> string" where
  "skip_ws s = dropWhile is_ws s"

text \<open>The character after a backslash, other than \<^verbatim>\<open>u\<close>.\<close>

definition unescape :: "char \<Rightarrow> char option" where
  "unescape e =
     (if e = CHR 0x22 then Some (CHR 0x22)
      else if e = CHR 0x5C then Some (CHR 0x5C)
      else if e = CHR ''/'' then Some (CHR ''/'')
      else if e = CHR ''b'' then Some (CHR 0x08)
      else if e = CHR ''f'' then Some (CHR 0x0C)
      else if e = CHR ''n'' then Some (CHR 0x0A)
      else if e = CHR ''r'' then Some (CHR 0x0D)
      else if e = CHR ''t'' then Some (CHR 0x09)
      else None)"

text \<open>The four hexadecimal digits of a \<^verbatim>\<open>\u\<close> escape.\<close>

definition hex4 :: "char \<Rightarrow> char \<Rightarrow> char \<Rightarrow> char \<Rightarrow> nat option" where
  "hex4 a b c d =
     (case (hex_val a, hex_val b, hex_val c, hex_val d) of
        (Some h3, Some h2, Some h1, Some h0) \<Rightarrow> Some (((h3 * 16 + h2) * 16 + h1) * 16 + h0)
      | _ \<Rightarrow> None)"

definition cons_unit :: "char \<Rightarrow> (string \<times> string) option \<Rightarrow> (string \<times> string) option" where
  "cons_unit c r = (case r of None \<Rightarrow> None | Some (s, rest) \<Rightarrow> Some (c # s, rest))"

text \<open>
  The characters of a string after its opening quote, up to the closing quote; the
  result is the string and the text that follows it.
\<close>

fun parse_chars :: "string \<Rightarrow> (string \<times> string) option" where
  "parse_chars [] = None"
| "parse_chars (c # cs) =
     (if c = CHR 0x22 then Some ([], cs)
      else if c = CHR 0x5C then
        (case cs of
           [] \<Rightarrow> None
         | e # cs1 \<Rightarrow>
             if e = CHR ''u'' then
               (case cs1 of
                  h3 # h2 # h1 # h0 # cs2 \<Rightarrow>
                    (case hex4 h3 h2 h1 h0 of
                       None \<Rightarrow> None
                     | Some n \<Rightarrow> if n < 256 then cons_unit (char_of n) (parse_chars cs2) else None)
                | _ \<Rightarrow> None)
             else
               (case unescape e of
                  None \<Rightarrow> None
                | Some u \<Rightarrow> cons_unit u (parse_chars cs1)))
      else if (of_char c :: nat) < 0x20 then None
      else cons_unit c (parse_chars cs))"

text \<open>
  A number: an optional minus sign and decimal digits with no leading zero. Only a safe
  integer is read; a fraction or an exponent after the digits is outside the model.
\<close>

definition parse_number :: "string \<Rightarrow> (int \<times> string) option" where
  "parse_number s =
     (let negative = (case s of [] \<Rightarrow> False | c # cs \<Rightarrow> c = CHR ''-'');
          s1 = (if negative then tl s else s);
          ds = takeWhile is_digit s1;
          rest = dropWhile is_digit s1;
          n = digits_value ds
      in if ds = [] then None
         else if hd ds = CHR ''0'' \<and> 1 < length ds then None
         else if (case rest of [] \<Rightarrow> False | c # cs \<Rightarrow> c = CHR ''.'' \<or> c = CHR ''e'' \<or> c = CHR ''E'')
           then None
         else if 9007199254740991 < n then None
         else if negative \<and> n = 0 then None
         else Some (if negative then - n else n, rest))"

text \<open>
  An object enumerates its array-index keys first, in ascending order, then its other
  keys in the order they were created. A key is an array index when it is the decimal
  form of an integer from 0 to \<open>2\<^sup>3\<^sup>2 - 2\<close>. \<open>define_property\<close> is CreateDataProperty on
  the list of properties kept in that order: a key already there keeps its place and
  takes the new value.
\<close>

definition array_index :: "string \<Rightarrow> int option" where
  "array_index k =
     (if k \<noteq> [] \<and> list_all is_digit k \<and> (hd k \<noteq> CHR ''0'' \<or> length k = 1) \<and>
         digits_value k \<le> 4294967294
      then Some (digits_value k) else None)"

fun insert_index :: "int \<Rightarrow> string \<times> 'a \<Rightarrow> (string \<times> 'a) list \<Rightarrow> (string \<times> 'a) list" where
  "insert_index i kv [] = [kv]"
| "insert_index i kv (x # xs) =
     (case array_index (fst x) of
        None \<Rightarrow> kv # x # xs
      | Some j \<Rightarrow> if j < i then x # insert_index i kv xs else kv # x # xs)"

definition define_property :: "string \<Rightarrow> 'a \<Rightarrow> (string \<times> 'a) list \<Rightarrow> (string \<times> 'a) list" where
  "define_property k v kvs =
     (if k \<in> set (map fst kvs) then map (\<lambda>(k', v'). if k' = k then (k', v) else (k', v')) kvs
      else case array_index k of
             None \<Rightarrow> kvs @ [(k, v)]
           | Some i \<Rightarrow> insert_index i (k, v) kvs)"

text \<open>One of the words \<^verbatim>\<open>null\<close>, \<^verbatim>\<open>true\<close>, \<^verbatim>\<open>false\<close>.\<close>

definition literal :: "string \<Rightarrow> json \<Rightarrow> string \<Rightarrow> (json \<times> string) option" where
  "literal word v s =
     (if take (length word) s = word then Some (v, drop (length word) s) else None)"

text \<open>
  A value, the elements of an array after its opening bracket, and the members of an
  object after its opening brace. The first argument bounds the depth of the calls; a
  reader that reaches the bound gives up.
\<close>

fun parse_value :: "nat \<Rightarrow> string \<Rightarrow> (json \<times> string) option"
  and parse_elements :: "nat \<Rightarrow> string \<Rightarrow> (json list \<times> string) option"
  and parse_members ::
    "nat \<Rightarrow> (string \<times> json) list \<Rightarrow> string \<Rightarrow> ((string \<times> json) list \<times> string) option"
where
  "parse_value 0 s = None"
| "parse_value (Suc n) s =
     (case skip_ws s of
        [] \<Rightarrow> None
      | c # cs \<Rightarrow>
          if c = CHR ''n'' then literal ''null'' JNull (c # cs)
          else if c = CHR ''t'' then literal ''true'' (JBool True) (c # cs)
          else if c = CHR ''f'' then literal ''false'' (JBool False) (c # cs)
          else if c = CHR 0x22 then
            (case parse_chars cs of
               None \<Rightarrow> None
             | Some (str, rest) \<Rightarrow> Some (JString str, rest))
          else if c = CHR ''['' then
            (case skip_ws cs of
               [] \<Rightarrow> None
             | d # ds \<Rightarrow>
                 if d = CHR '']'' then Some (JArray [], ds)
                 else (case parse_elements n cs of
                         None \<Rightarrow> None
                       | Some (vs, rest) \<Rightarrow> Some (JArray vs, rest)))
          else if c = CHR ''{'' then
            (case skip_ws cs of
               [] \<Rightarrow> None
             | d # ds \<Rightarrow>
                 if d = CHR ''}'' then Some (JObject [], ds)
                 else (case parse_members n [] cs of
                         None \<Rightarrow> None
                       | Some (kvs, rest) \<Rightarrow> Some (JObject kvs, rest)))
          else
            (case parse_number (c # cs) of
               None \<Rightarrow> None
             | Some (i, rest) \<Rightarrow> Some (JNumber i, rest)))"
| "parse_elements 0 s = None"
| "parse_elements (Suc n) s =
     (case parse_value n s of
        None \<Rightarrow> None
      | Some (v, rest) \<Rightarrow>
          (case skip_ws rest of
             [] \<Rightarrow> None
           | c # cs \<Rightarrow>
               if c = CHR '','' then
                 (case parse_elements n cs of
                    None \<Rightarrow> None
                  | Some (vs, rest') \<Rightarrow> Some (v # vs, rest'))
               else if c = CHR '']'' then Some ([v], cs)
               else None))"
| "parse_members 0 acc s = None"
| "parse_members (Suc n) acc s =
     (case skip_ws s of
        [] \<Rightarrow> None
      | q # cs \<Rightarrow>
          if q = CHR 0x22 then
            (case parse_chars cs of
               None \<Rightarrow> None
             | Some (k, rest) \<Rightarrow>
                 (case skip_ws rest of
                    [] \<Rightarrow> None
                  | colon # cs1 \<Rightarrow>
                      if colon = CHR '':'' then
                        (case parse_value n cs1 of
                           None \<Rightarrow> None
                         | Some (v, rest1) \<Rightarrow>
                             (case skip_ws rest1 of
                                [] \<Rightarrow> None
                              | c # cs2 \<Rightarrow>
                                  if c = CHR '','' then
                                    parse_members n (define_property k v acc) cs2
                                  else if c = CHR ''}'' then
                                    Some (define_property k v acc, cs2)
                                  else None))
                      else None))
          else None)"

text \<open>
  The whole text is one value, with white space around it. The bound is the length of
  the text and one more; \<open>parse_value_stringify\<close> below shows that no text written by
  \<open>json_stringify\<close> reaches it.
\<close>

definition json_parse :: "string \<Rightarrow> json option" where
  "json_parse s =
     (case parse_value (Suc (length s)) s of
        None \<Rightarrow> None
      | Some (v, rest) \<Rightarrow> if skip_ws rest = [] then Some v else None)"

subsection \<open>The values a message carries unchanged\<close>

text \<open>
  The values of the datatype that are values of the language: a number is an integer
  that a double holds exactly (a safe integer), and the properties of an object have
  distinct keys and stand in the order the language enumerates them.
\<close>

definition precedes :: "string \<Rightarrow> string \<Rightarrow> bool" where
  "precedes k1 k2 =
     (case array_index k1 of
        None \<Rightarrow> array_index k2 = None
      | Some i \<Rightarrow> (case array_index k2 of None \<Rightarrow> True | Some j \<Rightarrow> i < j))"

fun representable :: "json \<Rightarrow> bool" where
  "representable JNull = True"
| "representable (JBool b) = True"
| "representable (JNumber i) = (\<bar>i\<bar> \<le> 9007199254740991)"
| "representable (JString s) = True"
| "representable (JArray vs) = (\<forall>v \<in> set vs. representable v)"
| "representable (JObject kvs) =
     (distinct (map fst kvs) \<and> sorted_wrt precedes (map fst kvs) \<and>
      (\<forall>kv \<in> set kvs. representable (snd kv)))"

subsection \<open>Concrete platforms\<close>

text \<open>
  A platform whose \<^verbatim>\<open>JSON.stringify\<close> is the one above, around a store that answers
  \<open>publish\<close> and \<open>smembers\<close> as given.
\<close>

definition platform ::
  "(string \<Rightarrow> string \<Rightarrow> exn + nat) \<Rightarrow> (string \<Rightarrow> exn + string list) \<Rightarrow> json env" where
  "platform publish smembers =
     \<lparr> JSON_stringify = (\<lambda>vs. Inr (json_stringify (JArray vs))),
       redis_publish = publish,
       redis_smembers = smembers \<rparr>"

text \<open>A store that takes every message and knows two clients in the lobby.\<close>

definition store_up :: "json env" where
  "store_up =
     platform (\<lambda>channel message. Inr 1)
       (\<lambda>key. if key = ''io:lobby:clients'' then Inr [''c1'', ''c2''] else Inr [])"

text \<open>A store that cannot be reached.\<close>

definition store_down :: "json env" where
  "store_down =
     platform (\<lambda>channel message. Inl (Exn ''fetch failed''))
       (\<lambda>key. Inl (Exn ''fetch failed''))"

text \<open>A new instance with the default prefix, in a world where nothing has happened.\<close>

definition new_io :: "io \<times> json world" where
  "new_io =
     (constructor ''https://redis.example'' ''secret'' \<lparr> options_prefix = None \<rparr>,
      \<lparr> publish_calls = [], smembers_calls = [], diagnostics = [] \<rparr>)"

subsection \<open>Notions used in the proofs\<close>

text \<open>The text after a number does not continue it.\<close>

definition number_stop :: "string \<Rightarrow> bool" where
  "number_stop rest =
     (case rest of
        [] \<Rightarrow> True
      | c # cs \<Rightarrow> \<not> is_digit c \<and> c \<noteq> CHR ''.'' \<and> c \<noteq> CHR ''e'' \<and> c \<noteq> CHR ''E'')"

text \<open>The first character of a serialized number.\<close>

definition number_start :: "char \<Rightarrow> bool" where
  "number_start c = (c = CHR ''-'' \<or> is_digit c)"

text \<open>Defining the properties of a list one after the other.\<close>

definition define_all :: "(string \<times> 'a) list \<Rightarrow> (string \<times> 'a) list \<Rightarrow> (string \<times> 'a) list" where
  "define_all acc kvs = foldl (\<lambda>a kv. define_property (fst kv) (snd kv) a) acc kvs"

text \<open>One member of a serialized object.\<close>

definition member_text :: "string \<times> json \<Rightarrow> string" where
  "member_text kv = QuoteJSONString (fst kv) @ '':'' @ json_stringify (snd kv)"

section \<open>Properties\<close>

subsection \<open>What an emit does, by cases\<close>

lemma emit_instance: "fst (snd (emit env event data s)) = (fst s)\<lparr> targetRoom := None \<rparr>"
  by (simp add: emit_def Let_def split: prod.split sum.split)

lemma emit_falsy:
  "falsy (targetRoom (fst s)) \<Longrightarrow>
     emit env event data s =
       (Inr (), (fst s)\<lparr> targetRoom := None \<rparr>,
        logger (Warn ''IO emit called without setting a target room first'') (snd s))"
  by (simp add: emit_def emit_try_def)

lemma emit_stringify_throws:
  "targetRoom (fst s) = Some room \<Longrightarrow> room \<noteq> [] \<Longrightarrow>
   JSON_stringify env [event, data] = Inl error \<Longrightarrow>
     emit env event data s =
       (Inl error, (fst s)\<lparr> targetRoom := None \<rparr>,
        logger (Error ''Failed to emit event'' error) (snd s))"
  by (simp add: emit_def emit_try_def Let_def)

lemma emit_publish_throws:
  "targetRoom (fst s) = Some room \<Longrightarrow> room \<noteq> [] \<Longrightarrow>
   JSON_stringify env [event, data] = Inr payload \<Longrightarrow>
   redis_publish env (formatRoomName (fst s) room) payload = Inl error \<Longrightarrow>
     emit env event data s =
       (Inl error, (fst s)\<lparr> targetRoom := None \<rparr>,
        logger (Error ''Failed to emit event'' error)
          ((snd s)\<lparr> publish_calls :=
              publish_calls (snd s) @ [(formatRoomName (fst s) room, payload)] \<rparr>))"
  by (simp add: emit_def emit_try_def Let_def)

lemma emit_published:
  "targetRoom (fst s) = Some room \<Longrightarrow> room \<noteq> [] \<Longrightarrow>
   JSON_stringify env [event, data] = Inr payload \<Longrightarrow>
   redis_publish env (formatRoomName (fst s) room) payload = Inr n \<Longrightarrow>
     emit env event data s =
       (Inr (), (fst s)\<lparr> targetRoom := None \<rparr>,
        logger (Success (''IO emitted to room '' @ [CHR 0x22] @ room @ [CHR 0x22] @ '':'')
                  [event, data])
          ((snd s)\<lparr> publish_calls :=
              publish_calls (snd s) @ [(formatRoomName (fst s) room, payload)] \<rparr>))"
  by (simp add: emit_def emit_try_def Let_def)

lemma emit_publish_calls:
  "publish_calls (snd (snd (emit env event data s))) =
     publish_calls (snd s) @ emitted env event data (fst s)"
proof (cases "falsy (targetRoom (fst s))")
  case True
  then have "emitted env event data (fst s) = []"
    by (cases "targetRoom (fst s)") (simp_all add: emitted_def)
  with True show ?thesis
    by (simp add: emit_falsy logger_def)
next
  case False
  then obtain room where room: "targetRoom (fst s) = Some room" "room \<noteq> []"
    by (cases "targetRoom (fst s)") auto
  show ?thesis
  proof (cases "JSON_stringify env [event, data]")
    case (Inl error)
    with room show ?thesis
      by (simp add: emit_stringify_throws emitted_def logger_def)
  next
    case (Inr payload)
    show ?thesis
    proof (cases "redis_publish env (formatRoomName (fst s) room) payload")
      case (Inl error)
      from emit_publish_throws [OF room Inr Inl] room Inr show ?thesis
        by (simp add: emitted_def logger_def formatRoomName_def)
    next
      case (Inr n)
      from emit_published [OF room \<open>JSON_stringify env [event, data] = Inr payload\<close> Inr] room
        \<open>JSON_stringify env [event, data] = Inr payload\<close>
      show ?thesis
        by (simp add: emitted_def logger_def formatRoomName_def)
    qed
  qed
qed

lemma emit_fst: "fst (emit env event data s) = emit_result env event data (fst s)"
  by (cases "targetRoom (fst s)")
     (simp_all add: emit_def emit_try_def emit_result_def formatRoomName_def Let_def
        split: sum.split)

subsection \<open>The target room\<close>

text \<open>
  C1. After every call to \<^verbatim>\<open>emit\<close>, from any state and whatever the call returned or
  threw, the target room is \<^verbatim>\<open>null\<close>; the next \<^verbatim>\<open>emit\<close>, with no \<^verbatim>\<open>to\<close> in
  between, only logs the warning of a missing target: it returns normally, leaves the
  instance as it is and publishes nothing.
\<close>

theorem emit_clears_target:
  "targetRoom (fst (snd (emit env event data s))) = None \<and>
   emit env' event' data' (snd (emit env event data s)) =
     (Inr (), fst (snd (emit env event data s)),
      (snd (snd (emit env event data s)))
        \<lparr> diagnostics := diagnostics (snd (snd (emit env event data s))) @
            [Warn ''IO emit called without setting a target room first''] \<rparr>) \<and>
   publish_calls (snd (snd (emit env' event' data' (snd (emit env event data s))))) =
     publish_calls (snd (snd (emit env event data s)))"
proof -
  let ?s1 = "snd (emit env event data s)"
  have target: "targetRoom (fst ?s1) = None"
    by (simp add: emit_instance)
  then have "falsy (targetRoom (fst ?s1))"
    by simp
  from emit_falsy [OF this, of env' event' data'] target show ?thesis
    by (simp add: logger_def)
qed

text \<open>
  C3. An \<^verbatim>\<open>emit\<close> on an instance whose target room is \<^verbatim>\<open>null\<close> logs a warning,
  makes no call to the store, returns normally and leaves the instance untargeted.
\<close>

theorem emit_untargeted:
  assumes "targetRoom this = None"
  shows "emit env event data (this, w) =
           (Inr (), this,
            w\<lparr> diagnostics := diagnostics w @
                 [Warn ''IO emit called without setting a target room first''] \<rparr>)"
  using assms emit_falsy [of "(this, w)" env event data] by (simp add: logger_def)

theorem emit_untargeted_witness:
  "targetRoom (fst new_io) = None \<and>
   emit store_up (JString ''chat'') (JString ''hi'') new_io =
     (Inr (), fst new_io,
      \<lparr> publish_calls = [], smembers_calls = [],
        diagnostics = [Warn ''IO emit called without setting a target room first''] \<rparr>)"
proof -
  have target: "targetRoom (fst new_io) = None"
    by (simp add: new_io_def constructor_def)
  from emit_untargeted [OF target, of store_up "JString ''chat''" "JString ''hi''" "snd new_io"]
  show ?thesis
    using target by (simp add: new_io_def)
qed

text \<open>
  C4. When \<^verbatim>\<open>redis.publish\<close> fails in an \<^verbatim>\<open>emit\<close> with a target, the call logs
  the error, throws the failure it caught, and the target room is \<^verbatim>\<open>null\<close> afterwards.
\<close>

theorem emit_publish_failure:
  assumes "targetRoom this = Some room" and "room \<noteq> []"
    and "JSON_stringify env [event, data] = Inr payload"
    and "redis_publish env (prefix this @ '':'' @ room) payload = Inl error"
  shows "emit env event data (this, w) =
           (Inl error, this\<lparr> targetRoom := None \<rparr>,
            w\<lparr> publish_calls := publish_calls w @ [(prefix this @ '':'' @ room, payload)],
               diagnostics := diagnostics w @ [Error ''Failed to emit event'' error] \<rparr>)"
  using assms emit_publish_throws [of "(this, w)" room env event data payload error]
  by (simp add: logger_def formatRoomName_def)

lemma stringify_chat_hi:
  \<open>json_stringify (JArray [JString ''chat'', JString ''hi'']) = ''["chat","hi"]''\<close>
  by (simp add: QuoteJSONString_def quote_code_unit_def)

lemma to_lobby:
  "to ''lobby'' new_io =
     ((fst new_io)\<lparr> targetRoom := Some ''lobby'' \<rparr>, snd new_io)"
  by (simp add: to_def)

lemma prefix_new_io: "prefix (fst new_io) = ''io''"
  by (simp add: new_io_def constructor_def)

theorem emit_publish_failure_witness:
  \<open>targetRoom (fst (to ''lobby'' new_io)) = Some ''lobby'' \<and>
   JSON_stringify store_down [JString ''chat'', JString ''hi''] = Inr ''["chat","hi"]'' \<and>
   redis_publish store_down ''io:lobby'' ''["chat","hi"]'' = Inl (Exn ''fetch failed'') \<and>
   emit store_down (JString ''chat'') (JString ''hi'') (to ''lobby'' new_io) =
     (Inl (Exn ''fetch failed''), fst new_io,
      \<lparr> publish_calls = [(''io:lobby'', ''["chat","hi"]'')], smembers_calls = [],
        diagnostics = [Error ''Failed to emit event'' (Exn ''fetch failed'')] \<rparr>)\<close>
proof -
  let ?io = "(fst new_io)\<lparr> targetRoom := Some ''lobby'' \<rparr>"
  have target: "targetRoom ?io = Some ''lobby''" and room: "''lobby'' \<noteq> []"
    by simp_all
  have payload:
    \<open>JSON_stringify store_down [JString ''chat'', JString ''hi''] = Inr ''["chat","hi"]''\<close>
    using stringify_chat_hi by (simp add: store_down_def platform_def)
  have fails:
    \<open>redis_publish store_down (prefix ?io @ '':'' @ ''lobby'') ''["chat","hi"]'' =
       Inl (Exn ''fetch failed'')\<close>
    by (simp add: store_down_def platform_def)
  have same: "?io\<lparr> targetRoom := None \<rparr> = fst new_io"
    by (simp add: new_io_def constructor_def)
  from emit_publish_failure [OF target room payload fails, of "snd new_io"] payload fails same
  show ?thesis
    by (simp add: to_lobby prefix_new_io) (simp add: new_io_def)
qed

subsection \<open>Keys\<close>

text \<open>
  C2. For every prefix \<open>p\<close> and room \<open>r\<close>, the channel of the publish call an
  \<^verbatim>\<open>emit\<close> makes is \<open>p\<close>, a colon and \<open>r\<close>, and the key \<^verbatim>\<open>getClientsInRoom\<close>
  asks the members of is that channel followed by \<^verbatim>\<open>:clients\<close>. Both are given by
  \<open>p\<close> and \<open>r\<close> alone. (An emit to the empty room, or one whose frame cannot be
  serialized, makes no publish call.)
\<close>

theorem key_derivation:
  "formatRoomName this r = prefix this @ '':'' @ r \<and>
   publish_calls (snd (snd (emit env event data (this\<lparr> targetRoom := Some r \<rparr>, w)))) =
     publish_calls w @
       (if r = [] then []
        else case JSON_stringify env [event, data] of
               Inl error \<Rightarrow> []
             | Inr payload \<Rightarrow> [(prefix this @ '':'' @ r, payload)]) \<and>
   smembers_calls (snd (snd (getClientsInRoom env r (this, w)))) =
     smembers_calls w @ [prefix this @ '':'' @ r @ '':clients'']"
proof -
  have "smembers_calls (snd (snd (getClientsInRoom env r (this, w)))) =
          smembers_calls w @ [prefix this @ '':'' @ r @ '':clients'']"
    by (simp add: getClientsInRoom_def formatRoomName_def logger_def Let_def split: sum.split)
  moreover have "formatRoomName this r = prefix this @ '':'' @ r"
    by (simp add: formatRoomName_def)
  ultimately show ?thesis
    by (simp add: emit_publish_calls emitted_def split: sum.split)
qed

theorem key_derivation_witness:
  \<open>formatRoomName (fst new_io) ''lobby'' = ''io:lobby'' \<and>
   publish_calls (snd (snd (emit store_up (JString ''chat'') (JString ''hi'')
                              (to ''lobby'' new_io)))) =
     [(''io:lobby'', ''["chat","hi"]'')] \<and>
   smembers_calls (snd (snd (getClientsInRoom store_up ''lobby'' new_io))) =
     [''io:lobby:clients'']\<close>
proof -
  have payload:
    \<open>JSON_stringify store_up [JString ''chat'', JString ''hi''] = Inr ''["chat","hi"]''\<close>
    using stringify_chat_hi by (simp add: store_up_def platform_def)
  have state: "new_io = (fst new_io, snd new_io)"
    by simp
  from key_derivation [of "fst new_io" "''lobby''" store_up "JString ''chat''"
      "JString ''hi''" "snd new_io"] payload
  show ?thesis
    by (simp add: to_lobby prefix_new_io) (simp add: new_io_def)
qed

subsection \<open>Targeting\<close>

lemma to_instance: "fst (to room s) = (fst s)\<lparr> targetRoom := Some room \<rparr>"
  by (simp add: to_def)

lemma to_publish_calls: "publish_calls (snd (to room s)) = publish_calls (snd s)"
  by (simp add: to_def logger_def)

text \<open>
  C5, as the code has it. \<^verbatim>\<open>to("")\<close> logs a warning and stores the empty string as
  the target. The \<^verbatim>\<open>emit\<close> that follows finds that target falsy, as it finds
  \<^verbatim>\<open>null\<close>: it logs the warning of a missing target, makes no call to the store,
  returns normally and resets the target to \<^verbatim>\<open>null\<close>.
\<close>

theorem to_empty_then_emit:
  "to [] (this, w) =
     (this\<lparr> targetRoom := Some [] \<rparr>,
      w\<lparr> diagnostics := diagnostics w @ [Warn ''Empty room name provided to IO.to()''] \<rparr>) \<and>
   emit env event data (to [] (this, w)) =
     (Inr (), this\<lparr> targetRoom := None \<rparr>,
      w\<lparr> diagnostics := diagnostics w @
           [Warn ''Empty room name provided to IO.to()'',
            Warn ''IO emit called without setting a target room first''] \<rparr>)"
proof -
  have "falsy (targetRoom (fst (to [] (this, w))))"
    by (simp add: to_def)
  from emit_falsy [OF this, of env event data] show ?thesis
    by (simp add: to_def logger_def)
qed

text \<open>
  C5 as the specification words it, with a publish call on the channel \<^verbatim>\<open>io:\<close>,
  does not hold: with the default prefix and a store that accepts every message,
  \<^verbatim>\<open>to("")\<close> followed by \<^verbatim>\<open>emit\<close> makes no publish call and returns normally.
\<close>

theorem to_empty_then_emit_counterexample:
  \<open>publish_calls (snd (snd (emit store_up (JString ''chat'') (JString ''hi'')
                              (to [] new_io)))) = [] \<and>
   fst (emit store_up (JString ''chat'') (JString ''hi'') (to [] new_io)) = Inr ()\<close>
proof -
  have "falsy (targetRoom (fst (to [] new_io)))"
    by (simp add: to_def)
  from emit_falsy [OF this, of store_up "JString ''chat''" "JString ''hi''"] show ?thesis
    by (simp add: to_def logger_def new_io_def)
qed

text \<open>
  C6, as the code has it. Each \<^verbatim>\<open>to\<close> overwrites the target set before it. After
  \<^verbatim>\<open>to(r1)\<close> and \<^verbatim>\<open>to(r2)\<close> with \<open>r2\<close> not empty, an \<^verbatim>\<open>emit\<close> whose frame
  serializes makes exactly one publish call, on the channel of \<open>r2\<close>, which is not the
  channel of any other room \<open>r1\<close>.
\<close>

theorem last_to_wins:
  "targetRoom (fst (to r2 (to r1 s))) = Some r2 \<and>
   (r2 \<noteq> [] \<longrightarrow> JSON_stringify env [event, data] = Inr payload \<longrightarrow>
      publish_calls (snd (snd (emit env event data (to r2 (to r1 s))))) =
        publish_calls (snd s) @ [(prefix (fst s) @ '':'' @ r2, payload)] \<and>
      (r1 \<noteq> r2 \<longrightarrow> formatRoomName (fst s) r1 \<noteq> formatRoomName (fst s) r2))"
  by (simp add: emit_publish_calls emitted_def to_instance to_publish_calls formatRoomName_def)

theorem last_to_wins_witness:
  \<open>''lobby'' \<noteq> [] \<and>
   JSON_stringify store_up [JString ''chat'', JString ''hi''] = Inr ''["chat","hi"]'' \<and>
   targetRoom (fst (to ''lobby'' (to ''attic'' new_io))) = Some ''lobby'' \<and>
   publish_calls (snd (snd (emit store_up (JString ''chat'') (JString ''hi'')
                              (to ''lobby'' (to ''attic'' new_io))))) =
     [(''io:lobby'', ''["chat","hi"]'')] \<and>
   formatRoomName (fst new_io) ''attic'' \<noteq> formatRoomName (fst new_io) ''lobby''\<close>
proof -
  have room: "''lobby'' \<noteq> []"
    by simp
  have payload:
    \<open>JSON_stringify store_up [JString ''chat'', JString ''hi''] = Inr ''["chat","hi"]''\<close>
    using stringify_chat_hi by (simp add: store_up_def platform_def)
  have calls: "publish_calls (snd new_io) = []"
    by (simp add: new_io_def)
  from last_to_wins [of "''lobby''" "''attic''" new_io store_up "JString ''chat''"
      "JString ''hi''" "''[\"chat\",\"hi\"]''"] room payload
  show ?thesis
    by (simp add: prefix_new_io calls)
qed

text \<open>
  C6 as the specification words it, for all rooms, does not hold when the second room
  is empty: after \<^verbatim>\<open>to("lobby")\<close> and \<^verbatim>\<open>to("")\<close>, the \<^verbatim>\<open>emit\<close> does not
  publish exactly once; it makes no publish call at all.
\<close>

theorem last_to_wins_counterexample:
  \<open>length (publish_calls (snd (snd (emit store_up (JString ''chat'') (JString ''hi'')
                                      (to [] (to ''lobby'' new_io)))))) \<noteq> 1\<close>
proof -
  have "falsy (targetRoom (fst (to [] (to ''lobby'' new_io))))"
    by (simp add: to_def)
  from emit_falsy [OF this, of store_up "JString ''chat''" "JString ''hi''"] show ?thesis
    by (simp add: to_def logger_def new_io_def)
qed

subsection \<open>Room membership\<close>

lemma getClientsInRoom_instance: "fst (snd (getClientsInRoom env room s)) = fst s"
  by (simp add: getClientsInRoom_def Let_def split: sum.split)

lemma getClientsInRoom_publish_calls:
  "publish_calls (snd (snd (getClientsInRoom env room s))) = publish_calls (snd s)"
  by (simp add: getClientsInRoom_def logger_def Let_def split: sum.split)

text \<open>
  C7. \<^verbatim>\<open>getClientsInRoom(room)\<close> never throws. When the store answers the members of
  the key made of the prefix, the room and \<^verbatim>\<open>:clients\<close>, the call returns exactly
  them; when the store fails, the call logs the error and returns the empty array.
\<close>

theorem getClientsInRoom_never_raises:
  \<open>(\<exists>clients. fst (getClientsInRoom env room s) = Inr clients) \<and>
   (redis_smembers env (prefix (fst s) @ '':'' @ room @ '':clients'') = Inr members \<longrightarrow>
      fst (getClientsInRoom env room s) = Inr members \<and>
      diagnostics (snd (snd (getClientsInRoom env room s))) = diagnostics (snd s)) \<and>
   (redis_smembers env (prefix (fst s) @ '':'' @ room @ '':clients'') = Inl error \<longrightarrow>
      fst (getClientsInRoom env room s) = Inr [] \<and>
      diagnostics (snd (snd (getClientsInRoom env room s))) =
        diagnostics (snd s) @
          [Error (''Failed to get clients in room "'' @ room @ ''"'') error])\<close>
  by (cases "redis_smembers env (prefix (fst s) @ '':'' @ room @ '':clients'')")
     (simp_all add: getClientsInRoom_def formatRoomName_def logger_def Let_def)

theorem getClientsInRoom_never_raises_witness:
  \<open>redis_smembers store_up ''io:lobby:clients'' = Inr [''c1'', ''c2''] \<and>
   fst (getClientsInRoom store_up ''lobby'' new_io) = Inr [''c1'', ''c2''] \<and>
   redis_smembers store_down ''io:lobby:clients'' = Inl (Exn ''fetch failed'') \<and>
   fst (getClientsInRoom store_down ''lobby'' new_io) = Inr [] \<and>
   diagnostics (snd (snd (getClientsInRoom store_down ''lobby'' new_io))) =
     [Error ''Failed to get clients in room "lobby"'' (Exn ''fetch failed'')]\<close>
proof -
  have up: "redis_smembers store_up ''io:lobby:clients'' = Inr [''c1'', ''c2'']"
    by (simp add: store_up_def platform_def)
  have down: "redis_smembers store_down ''io:lobby:clients'' = Inl (Exn ''fetch failed'')"
    by (simp add: store_down_def platform_def)
  have quiet: "diagnostics (snd new_io) = []"
    by (simp add: new_io_def)
  from getClientsInRoom_never_raises [of store_up "''lobby''" new_io "[''c1'', ''c2'']"]
    getClientsInRoom_never_raises [of store_down "''lobby''" new_io _ "Exn ''fetch failed''"]
    up down quiet
  show ?thesis
    by (simp add: prefix_new_io)
qed

text \<open>
  C9. \<^verbatim>\<open>getClientsInRoom\<close> leaves the instance, and so its target room, as it found
  it, whatever the state and the room asked about, and makes no publish call. An
  \<^verbatim>\<open>emit\<close> after \<^verbatim>\<open>to(r)\<close> and \<^verbatim>\<open>getClientsInRoom(q)\<close> therefore returns what it
  returns right after \<^verbatim>\<open>to(r)\<close> and makes the same publish call, on the channel of
  \<open>r\<close> (none when \<open>r\<close> is empty or the frame cannot be serialized).
\<close>

theorem getClientsInRoom_keeps_target:
  "fst (snd (getClientsInRoom env q s)) = fst s \<and>
   publish_calls (snd (snd (getClientsInRoom env q s))) = publish_calls (snd s) \<and>
   targetRoom (fst (snd (getClientsInRoom env q (to r s)))) = Some r \<and>
   fst (emit env' event data (snd (getClientsInRoom env q (to r s)))) =
     fst (emit env' event data (to r s)) \<and>
   fst (snd (emit env' event data (snd (getClientsInRoom env q (to r s))))) =
     fst (snd (emit env' event data (to r s))) \<and>
   publish_calls (snd (snd (emit env' event data (snd (getClientsInRoom env q (to r s)))))) =
     publish_calls (snd (snd (emit env' event data (to r s)))) \<and>
   publish_calls (snd (snd (emit env' event data (snd (getClientsInRoom env q (to r s)))))) =
     publish_calls (snd s) @
       (if r = [] then []
        else case JSON_stringify env' [event, data] of
               Inl error \<Rightarrow> []
             | Inr payload \<Rightarrow> [(prefix (fst s) @ '':'' @ r, payload)])"
  by (simp add: getClientsInRoom_instance getClientsInRoom_publish_calls emit_fst
      emit_instance emit_publish_calls to_instance to_publish_calls emitted_def
      split: sum.split)

theorem getClientsInRoom_keeps_target_witness:
  \<open>targetRoom (fst (snd (getClientsInRoom store_down ''attic'' (to ''lobby'' new_io)))) =
     Some ''lobby'' \<and>
   publish_calls (snd (snd (emit store_up (JString ''chat'') (JString ''hi'')
      (snd (getClientsInRoom store_down ''attic'' (to ''lobby'' new_io)))))) =
     [(''io:lobby'', ''["chat","hi"]'')]\<close>
proof -
  have payload:
    \<open>JSON_stringify store_up [JString ''chat'', JString ''hi''] = Inr ''["chat","hi"]''\<close>
    using stringify_chat_hi by (simp add: store_up_def platform_def)
  have calls: "publish_calls (snd new_io) = []"
    by (simp add: new_io_def)
  from getClientsInRoom_keeps_target [of store_down "''attic''" "new_io" "''lobby''" store_up
      "JString ''chat''" "JString ''hi''"]
  show ?thesis
    by (clarsimp simp add: prefix_new_io calls payload)
qed

subsection \<open>The prefix\<close>

lemma prefix_constructor: "prefix (constructor redisUrl redisToken opts) \<noteq> []"
  by (cases "options_prefix opts") (simp_all add: constructor_def)

lemma reachable_prefix: "reachable s \<Longrightarrow> prefix (fst s) \<noteq> []"
proof (induction rule: reachable.induct)
  case (constructed redisUrl redisToken opts)
  show ?case by (simp add: prefix_constructor)
next
  case (after_to s room)
  then show ?case by (simp add: to_instance)
next
  case (after_emit s env event data)
  then show ?case by (simp add: emit_instance)
next
  case (after_getClientsInRoom s env room)
  then show ?case by (simp add: getClientsInRoom_instance)
next
  case (after_close s)
  then show ?case by (simp add: close_def)
qed

text \<open>
  C10. A constructor whose options carry the empty string as prefix gives the default
  prefix \<^verbatim>\<open>io\<close>, as it does when the option is left out; whatever the options, the
  prefix of the new instance is not empty, and it is not empty in any state the instance
  reaches later.
\<close>

theorem constructor_prefix_default:
  "prefix (constructor redisUrl redisToken \<lparr> options_prefix = Some [] \<rparr>) = ''io'' \<and>
   prefix (constructor redisUrl redisToken \<lparr> options_prefix = None \<rparr>) = ''io'' \<and>
   prefix (constructor redisUrl redisToken opts) \<noteq> [] \<and>
   (reachable s \<longrightarrow> prefix (fst s) \<noteq> [])"
  using prefix_constructor [of redisUrl redisToken opts] reachable_prefix [of s]
  by (simp add: constructor_def)

theorem constructor_prefix_default_witness:
  "reachable (snd (emit store_down (JString ''chat'') (JString ''hi'') (to ''lobby'' new_io))) \<and>
   prefix (fst (snd (emit store_down (JString ''chat'') (JString ''hi'')
                       (to ''lobby'' new_io)))) \<noteq> []"
proof -
  have "reachable new_io"
    unfolding new_io_def by (rule reachable.constructed)
  then have "reachable (to ''lobby'' new_io)"
    by (rule reachable.after_to)
  then have r: "reachable (snd (emit store_down (JString ''chat'') (JString ''hi'')
                                  (to ''lobby'' new_io)))"
    by (rule reachable.after_emit)
  from constructor_prefix_default [of "''u''" "''t''" "\<lparr> options_prefix = None \<rparr>"
      "snd (emit store_down (JString ''chat'') (JString ''hi'') (to ''lobby'' new_io))"] r
  show ?thesis
    by simp
qed

subsection \<open>A serialized value reads back as itself\<close>

text \<open>
  The bound on the depth of the reader only cuts runs short: a result found within a
  bound is the result within every larger bound.
\<close>

lemma parse_fuel:
  "(parse_value n s = Some r \<longrightarrow> parse_value (n + k) s = Some r) \<and>
   (parse_elements n s = Some r2 \<longrightarrow> parse_elements (n + k) s = Some r2) \<and>
   (parse_members n acc s = Some r3 \<longrightarrow> parse_members (n + k) acc s = Some r3)"
proof (induction n arbitrary: s r r2 r3 acc)
  case 0
  show ?case by simp
next
  case (Suc n)
  have v: "\<And>s r. parse_value n s = Some r \<Longrightarrow> parse_value (n + k) s = Some r"
    and e: "\<And>s r. parse_elements n s = Some r \<Longrightarrow> parse_elements (n + k) s = Some r"
    and m: "\<And>s acc r. parse_members n acc s = Some r \<Longrightarrow>
              parse_members (n + k) acc s = Some r"
    using Suc.IH by blast+
  have 1: "parse_value (Suc n) s = Some r \<longrightarrow> parse_value (Suc n + k) s = Some r"
    by (auto simp add: e m split: list.splits option.splits if_splits)
  have 2: "parse_elements (Suc n) s = Some r2 \<longrightarrow> parse_elements (Suc n + k) s = Some r2"
    by (auto simp add: v e split: list.splits option.splits if_splits)
  have 3: "parse_members (Suc n) acc s = Some r3 \<longrightarrow>
             parse_members (Suc n + k) acc s = Some r3"
    by (auto simp add: v m split: list.splits option.splits if_splits)
  from 1 2 3 show ?case by blast
qed

text \<open>Strings: every quoted code unit is read back as that unit.\<close>

declare decimal.simps [simp del]

lemma skip_ws_keep: "\<not> is_ws c \<Longrightarrow> skip_ws (c # cs) = c # cs"
  by (simp add: skip_ws_def)

lemma hex_val_hex_char: "d < 16 \<Longrightarrow> hex_val (hex_char d) = Some d"
  by (simp add: hex_val_def hex_char_def Let_def)

lemma hex4_control:
  assumes "n < 32"
  shows "hex4 (CHR ''0'') (CHR ''0'') (hex_char (n div 16)) (hex_char (n mod 16)) = Some n"
proof -
  have "n div 16 < 16" using assms by simp
  then have a: "hex_val (hex_char (n div 16)) = Some (n div 16)"
    by (rule hex_val_hex_char)
  have b: "hex_val (hex_char (n mod 16)) = Some (n mod 16)"
    by (rule hex_val_hex_char) simp
  have z: "hex_val (CHR ''0'') = Some 0"
    by (simp add: hex_val_def)
  show ?thesis
    by (simp add: hex4_def a b z)
qed

lemma parse_chars_unit:
  "parse_chars (quote_code_unit c @ t) = cons_unit c (parse_chars t)"
proof (cases "(of_char c :: nat) < 0x20")
  case True
  then have n: "(of_char c :: nat) < 32" by simp
  show ?thesis
    using hex4_control [OF n] n
    by (simp add: quote_code_unit_def unescape_def)
next
  case False
  then show ?thesis
    by (simp add: quote_code_unit_def unescape_def)
qed

lemma parse_chars_quoted:
  "parse_chars (concat (map quote_code_unit s) @ CHR 0x22 # rest) = Some (s, rest)"
  by (induction s) (simp_all add: parse_chars_unit cons_unit_def)

text \<open>Numbers: the decimal digits written are the digits read.\<close>

lemma of_char_digit_char: "0 \<le> d \<Longrightarrow> d < 10 \<Longrightarrow> (of_char (digit_char d) :: int) = 48 + d"
  by (simp add: digit_char_def)

lemma is_digit_digit_char: "0 \<le> d \<Longrightarrow> d < 10 \<Longrightarrow> is_digit (digit_char d)"
  by (simp add: is_digit_def of_char_digit_char)

lemma digit_val_digit_char: "0 \<le> d \<Longrightarrow> d < 10 \<Longrightarrow> digit_val (digit_char d) = d"
  by (simp add: digit_val_def of_char_digit_char)

lemma decimal_digits: "0 \<le> n \<Longrightarrow> list_all is_digit (decimal n)"
proof (induction n rule: decimal.induct)
  case (1 n)
  show ?case
  proof (cases "n < 10")
    case True
    with "1.prems" show ?thesis
      by (simp add: decimal.simps [of n] is_digit_digit_char)
  next
    case False
    with "1.prems" have "list_all is_digit (decimal (n div 10))"
      by (intro "1.IH") simp_all
    moreover have "is_digit (digit_char (n mod 10))"
      by (rule is_digit_digit_char) simp_all
    ultimately show ?thesis
      using False by (simp add: decimal.simps [of n])
  qed
qed

lemma decimal_not_empty: "decimal n \<noteq> []"
  by (simp add: decimal.simps [of n])

lemma digits_value_snoc: "digits_value (ds @ [c]) = 10 * digits_value ds + digit_val c"
  by (simp add: digits_value_def)

lemma digits_value_decimal: "0 \<le> n \<Longrightarrow> digits_value (decimal n) = n"
proof (induction n rule: decimal.induct)
  case (1 n)
  show ?case
  proof (cases "n < 10")
    case True
    with "1.prems" show ?thesis
      by (simp add: decimal.simps [of n] digits_value_def digit_val_digit_char)
  next
    case False
    with "1.prems" have "digits_value (decimal (n div 10)) = n div 10"
      by (intro "1.IH") simp_all
    moreover have "digit_val (digit_char (n mod 10)) = n mod 10"
      by (rule digit_val_digit_char) simp_all
    ultimately show ?thesis
      using False by (simp add: decimal.simps [of n] digits_value_snoc)
  qed
qed

text \<open>No leading zero: the first digit is 0 only for the number 0, written with one digit.\<close>

lemma decimal_leading: "0 \<le> n \<Longrightarrow> hd (decimal n) = CHR ''0'' \<Longrightarrow> length (decimal n) = 1"
proof (induction n rule: decimal.induct)
  case (1 n)
  show ?case
  proof (cases "n < 10")
    case True
    then show ?thesis
      by (simp add: decimal.simps [of n])
  next
    case False
    with "1.prems" have pos: "0 \<le> n div 10" and big: "0 < n div 10"
      by simp_all
    from False "1.prems" have "hd (decimal (n div 10)) = CHR ''0''"
      by (simp add: decimal.simps [of n] decimal_not_empty)
    with "1.IH" False pos have one: "length (decimal (n div 10)) = 1"
      by simp
    then obtain c where c: "decimal (n div 10) = [c]"
      by (cases "decimal (n div 10)") simp_all
    with \<open>hd (decimal (n div 10)) = CHR ''0''\<close> have "decimal (n div 10) = [CHR ''0'']"
      by simp
    then have "digits_value (decimal (n div 10)) = 0"
      by (simp add: digits_value_def digit_val_def)
    with digits_value_decimal [OF pos] big show ?thesis
      by simp
  qed
qed

lemma takeWhile_digits:
  "list_all is_digit ds \<Longrightarrow> number_stop rest \<Longrightarrow> takeWhile is_digit (ds @ rest) = ds"
  by (cases rest) (simp_all add: number_stop_def takeWhile_append2 list_all_iff takeWhile_eq_all_conv)

lemma dropWhile_digits:
  "list_all is_digit ds \<Longrightarrow> number_stop rest \<Longrightarrow> dropWhile is_digit (ds @ rest) = rest"
  by (cases rest) (simp_all add: number_stop_def dropWhile_append2 list_all_iff)

lemma hd_decimal_not_minus: "0 \<le> n \<Longrightarrow> hd (decimal n) \<noteq> CHR ''-''"
proof -
  assume "0 \<le> n"
  then have "list_all is_digit (decimal n)"
    by (rule decimal_digits)
  then have "is_digit (hd (decimal n))"
    using decimal_not_empty [of n] by (cases "decimal n") simp_all
  then show ?thesis
    by (auto simp add: is_digit_def)
qed

lemma parse_number_decimal:
  assumes "0 \<le> n" "n \<le> 9007199254740991" "number_stop rest"
  shows "parse_number (decimal n @ rest) = Some (n, rest)"
proof -
  obtain c cs where d: "decimal n = c # cs"
    using decimal_not_empty [of n] by (cases "decimal n") simp_all
  with hd_decimal_not_minus [OF assms(1)] have c: "c \<noteq> CHR ''-''"
    by simp
  have digits: "list_all is_digit (c # cs)"
    using decimal_digits [OF assms(1)] d by simp
  have tw: "takeWhile is_digit ((c # cs) @ rest) = c # cs"
    by (rule takeWhile_digits [OF digits assms(3)])
  have dw: "dropWhile is_digit ((c # cs) @ rest) = rest"
    by (rule dropWhile_digits [OF digits assms(3)])
  have lead: "c = CHR ''0'' \<Longrightarrow> cs = []"
    using decimal_leading [OF assms(1)] d by simp
  have val: "digits_value (c # cs) = n"
    using digits_value_decimal [OF assms(1)] d by simp
  have stop: "\<not> (case rest of [] \<Rightarrow> False | c # cs \<Rightarrow> c = CHR ''.'' \<or> c = CHR ''e'' \<or> c = CHR ''E'')"
    using assms(3) by (cases rest) (simp_all add: number_stop_def)
  show ?thesis
    using c tw dw lead val stop assms(2)
    unfolding d parse_number_def by (auto simp add: Let_def)
qed

lemma parse_number_negative:
  assumes "0 < n" "n \<le> 9007199254740991" "number_stop rest"
  shows "parse_number (CHR ''-'' # decimal n @ rest) = Some (- n, rest)"
proof -
  have pos: "0 \<le> n" using assms(1) by simp
  obtain c cs where d: "decimal n = c # cs"
    using decimal_not_empty [of n] by (cases "decimal n") simp_all
  have digits: "list_all is_digit (c # cs)"
    using decimal_digits [OF pos] d by simp
  have tw: "takeWhile is_digit ((c # cs) @ rest) = c # cs"
    by (rule takeWhile_digits [OF digits assms(3)])
  have dw: "dropWhile is_digit ((c # cs) @ rest) = rest"
    by (rule dropWhile_digits [OF digits assms(3)])
  have lead: "c = CHR ''0'' \<Longrightarrow> cs = []"
    using decimal_leading [OF pos] d by simp
  have val: "digits_value (c # cs) = n"
    using digits_value_decimal [OF pos] d by simp
  have stop: "\<not> (case rest of [] \<Rightarrow> False | c # cs \<Rightarrow> c = CHR ''.'' \<or> c = CHR ''e'' \<or> c = CHR ''E'')"
    using assms(3) by (cases rest) (simp_all add: number_stop_def)
  show ?thesis
    using tw dw lead val stop assms(1,2)
    unfolding d parse_number_def by (auto simp add: Let_def)
qed

lemma parse_number_to_string:
  assumes "\<bar>i\<bar> \<le> 9007199254740991" "number_stop rest"
  shows "parse_number (number_to_string i @ rest) = Some (i, rest)"
proof (cases "i < 0")
  case True
  with assms parse_number_negative [of "- i" rest] show ?thesis
    by (simp add: number_to_string_def)
next
  case False
  with assms parse_number_decimal [of i rest] show ?thesis
    by (simp add: number_to_string_def)
qed

text \<open>
  Objects: defining, one after the other, properties that already stand in the order of
  enumeration appends each of them.
\<close>

lemma insert_index_last:
  "array_index k = Some i \<Longrightarrow> \<forall>x \<in> set xs. precedes (fst x) k \<Longrightarrow>
     insert_index i (k, v) xs = xs @ [(k, v)]"
  by (induction xs) (auto simp add: precedes_def split: option.splits)

lemma define_property_last:
  assumes "k \<notin> set (map fst kvs)" and "\<forall>x \<in> set kvs. precedes (fst x) k"
  shows "define_property k v kvs = kvs @ [(k, v)]"
proof (cases "array_index k")
  case None
  with assms show ?thesis
    by (simp add: define_property_def)
next
  case (Some i)
  with assms insert_index_last [OF Some assms(2), of v] show ?thesis
    by (simp add: define_property_def)
qed

lemma define_all_ordered:
  "distinct (map fst (acc @ kvs)) \<Longrightarrow> sorted_wrt precedes (map fst (acc @ kvs)) \<Longrightarrow>
     define_all acc kvs = acc @ kvs"
proof (induction kvs arbitrary: acc)
  case Nil
  show ?case by (simp add: define_all_def)
next
  case (Cons kv kvs)
  have fresh: "fst kv \<notin> set (map fst acc)"
    using Cons.prems(1) by auto
  have after: "\<forall>x \<in> set acc. precedes (fst x) (fst kv)"
    using Cons.prems(2) by (auto simp add: sorted_wrt_append)
  have step: "define_property (fst kv) (snd kv) acc = acc @ [kv]"
    using define_property_last [OF fresh after, of "snd kv"] by simp
  have "define_all (acc @ [kv]) kvs = (acc @ [kv]) @ kvs"
    using Cons.prems by (intro Cons.IH) simp_all
  with step show ?case
    by (simp add: define_all_def)
qed

text \<open>Where a serialized value starts, and what the reader does there.\<close>

lemma number_to_string_start:
  "\<bar>i\<bar> \<le> 9007199254740991 \<Longrightarrow> \<exists>c cs. number_to_string i = c # cs \<and> number_start c"
proof (cases "i < 0")
  case True
  then show ?thesis by (simp add: number_to_string_def number_start_def)
next
  case False
  then have pos: "0 \<le> i" by simp
  obtain c cs where d: "decimal i = c # cs"
    using decimal_not_empty [of i] by (cases "decimal i") simp_all
  with decimal_digits [OF pos] have "is_digit c" by simp
  with d False show ?thesis by (simp add: number_to_string_def number_start_def)
qed

lemma is_digit_cases:
  "is_digit c \<Longrightarrow>
     \<not> is_ws c \<and> c \<noteq> CHR ''n'' \<and> c \<noteq> CHR ''t'' \<and> c \<noteq> CHR ''f'' \<and> c \<noteq> CHR 0x22 \<and>
     c \<noteq> CHR ''['' \<and> c \<noteq> CHR ''{'' \<and> c \<noteq> CHR '']'' \<and> c \<noteq> CHR ''}''"
  by (auto simp add: is_digit_def is_ws_def)

lemma number_start_cases:
  assumes "number_start c"
  shows "\<not> is_ws c \<and> c \<noteq> CHR ''n'' \<and> c \<noteq> CHR ''t'' \<and> c \<noteq> CHR ''f'' \<and> c \<noteq> CHR 0x22 \<and>
     c \<noteq> CHR ''['' \<and> c \<noteq> CHR ''{'' \<and> c \<noteq> CHR '']'' \<and> c \<noteq> CHR ''}''"
proof (cases "c = CHR ''-''")
  case True
  then show ?thesis by (simp add: is_ws_def)
next
  case False
  with assms have "is_digit c" by (simp add: number_start_def)
  then show ?thesis by (rule is_digit_cases)
qed

lemma parse_value_other:
  assumes "number_start c"
  shows "parse_value (Suc n) (c # cs) =
           (case parse_number (c # cs) of None \<Rightarrow> None | Some (i, rest) \<Rightarrow> Some (JNumber i, rest))"
  using number_start_cases [OF assms] by (simp add: skip_ws_keep)

lemma parse_value_number:
  assumes "\<bar>i\<bar> \<le> 9007199254740991" "number_stop rest"
  shows "parse_value (Suc n) (number_to_string i @ rest) = Some (JNumber i, rest)"
proof -
  from number_to_string_start [OF assms(1)] obtain c cs
    where s: "number_to_string i = c # cs" and c: "number_start c"
    by blast
  from parse_number_to_string [OF assms] s
  have "parse_number (c # (cs @ rest)) = Some (i, rest)"
    by simp
  with parse_value_other [OF c, of n "cs @ rest"] show ?thesis
    by (simp add: s)
qed

lemma parse_value_string:
  "parse_value (Suc n) (QuoteJSONString s @ rest) = Some (JString s, rest)"
  by (simp add: QuoteJSONString_def skip_ws_def is_ws_def parse_chars_quoted)

lemma json_stringify_start:
  assumes "representable v"
  shows "\<exists>c cs. json_stringify v = c # cs \<and> \<not> is_ws c \<and> c \<noteq> CHR '']'' \<and> c \<noteq> CHR ''}''"
proof (cases v)
  case (JNumber i)
  with assms number_to_string_start [of i] obtain c cs
    where s: "number_to_string i = c # cs" and c: "number_start c"
    by auto
  from number_start_cases [OF c] s JNumber show ?thesis
    by simp
qed (simp_all add: is_ws_def QuoteJSONString_def)

lemma json_stringify_not_empty: "representable v \<Longrightarrow> 0 < length (json_stringify v)"
  using json_stringify_start [of v] by auto

lemma number_stop_comma: "number_stop (CHR '','' # t)"
  and number_stop_bracket: "number_stop (CHR '']'' # t)"
  and number_stop_brace: "number_stop (CHR ''}'' # t)"
  and number_stop_end: "number_stop []"
  by (simp_all add: number_stop_def is_digit_def)

lemma skip_ws_comma: "skip_ws (CHR '','' # t) = CHR '','' # t"
  and skip_ws_bracket: "skip_ws (CHR '']'' # t) = CHR '']'' # t"
  and skip_ws_brace: "skip_ws (CHR ''}'' # t) = CHR ''}'' # t"
  and skip_ws_colon: "skip_ws (CHR '':'' # t) = CHR '':'' # t"
  and skip_ws_quote: "skip_ws (CHR 0x22 # t) = CHR 0x22 # t"
  by (simp_all add: skip_ws_def is_ws_def)

text \<open>The elements of an array and the members of an object, given that each value reads back.\<close>

lemma parse_elements_join:
  "vs \<noteq> [] \<Longrightarrow> \<forall>v \<in> set vs. representable v \<Longrightarrow>
   \<forall>v \<in> set vs. \<forall>n rest. length (json_stringify v) \<le> n \<longrightarrow> number_stop rest \<longrightarrow>
      parse_value n (json_stringify v @ rest) = Some (v, rest) \<Longrightarrow>
   length (join_comma (map json_stringify vs)) < n \<Longrightarrow>
   parse_elements n (join_comma (map json_stringify vs) @ CHR '']'' # rest) = Some (vs, rest)"
proof (induction vs arbitrary: n)
  case Nil
  then show ?case by simp
next
  case (Cons v vs)
  from Cons.prems(4) obtain m where n: "n = Suc m"
    by (cases n) simp_all
  have elem: "\<And>k t. length (json_stringify v) \<le> k \<Longrightarrow> number_stop t \<Longrightarrow>
      parse_value k (json_stringify v @ t) = Some (v, t)"
    using Cons.prems(3) by simp
  show ?case
  proof (cases vs)
    case Nil
    with Cons.prems(4) n have "length (json_stringify v) \<le> m"
      by simp
    from elem [OF this number_stop_bracket] Nil show ?thesis
      by (simp add: n skip_ws_bracket)
  next
    case (Cons v' vs')
    have "representable v"
      using Cons.prems(2) by simp
    then have pos: "0 < length (json_stringify v)"
      by (rule json_stringify_not_empty)
    from Cons.prems(4) n Cons have len: "length (json_stringify v) \<le> m"
      by simp
    from Cons.prems(4) n Cons pos
    have len': "length (join_comma (map json_stringify vs)) < m"
      by simp
    have "parse_elements m (join_comma (map json_stringify vs) @ CHR '']'' # rest) =
            Some (vs, rest)"
      using Cons Cons.prems(2,3) len' by (intro Cons.IH) simp_all
    with elem [OF len number_stop_comma] Cons show ?thesis
      by (simp add: n skip_ws_comma)
  qed
qed

lemma member_text_length:
  "length (member_text kv) = length (QuoteJSONString (fst kv)) + 1 + length (json_stringify (snd kv))"
  by (simp add: member_text_def)

lemma parse_member_key:
  "parse_chars (tl (member_text kv) @ t) = Some (fst kv, CHR '':'' # json_stringify (snd kv) @ t)"
  using parse_chars_quoted [of "fst kv" "CHR '':'' # json_stringify (snd kv) @ t"]
  by (simp add: member_text_def QuoteJSONString_def)

lemma member_text_start: "\<exists>cs. member_text kv = CHR 0x22 # cs"
  by (simp add: member_text_def QuoteJSONString_def)

lemma parse_members_step:
  assumes "parse_value m (json_stringify (snd kv) @ t) = Some (snd kv, t)"
  shows "parse_members (Suc m) acc (member_text kv @ t) =
           (case skip_ws t of
              [] \<Rightarrow> None
            | c # cs \<Rightarrow>
                if c = CHR '','' then parse_members m (define_property (fst kv) (snd kv) acc) cs
                else if c = CHR ''}'' then Some (define_property (fst kv) (snd kv) acc, cs)
                else None)"
proof -
  obtain cs where start: "member_text kv = CHR 0x22 # cs"
    using member_text_start by blast
  then have "parse_chars (cs @ t) = Some (fst kv, CHR '':'' # json_stringify (snd kv) @ t)"
    using parse_member_key [of kv t] by simp
  with assms show ?thesis
    by (simp add: start skip_ws_quote skip_ws_colon)
qed

lemma parse_members_join:
  "kvs \<noteq> [] \<Longrightarrow> \<forall>kv \<in> set kvs. representable (snd kv) \<Longrightarrow>
   \<forall>kv \<in> set kvs. \<forall>n rest. length (json_stringify (snd kv)) \<le> n \<longrightarrow> number_stop rest \<longrightarrow>
      parse_value n (json_stringify (snd kv) @ rest) = Some (snd kv, rest) \<Longrightarrow>
   length (join_comma (map member_text kvs)) < n \<Longrightarrow>
   parse_members n acc (join_comma (map member_text kvs) @ CHR ''}'' # rest) =
     Some (define_all acc kvs, rest)"
proof (induction kvs arbitrary: n acc)
  case Nil
  then show ?case by simp
next
  case (Cons kv kvs)
  from Cons.prems(4) obtain m where n: "n = Suc m"
    by (cases n) simp_all
  have val: "\<And>k t. length (json_stringify (snd kv)) \<le> k \<Longrightarrow> number_stop t \<Longrightarrow>
      parse_value k (json_stringify (snd kv) @ t) = Some (snd kv, t)"
    using Cons.prems(3) by simp
  show ?case
  proof (cases kvs)
    case Nil
    with Cons.prems(4) n have "length (json_stringify (snd kv)) \<le> m"
      by (simp add: member_text_length)
    from parse_members_step [OF val [OF this number_stop_brace], of acc rest] Nil
    show ?thesis
      by (simp add: n skip_ws_brace define_all_def)
  next
    case (Cons kv' kvs')
    from Cons.prems(4) n Cons have len: "length (json_stringify (snd kv)) \<le> m"
      by (simp add: member_text_length)
    from Cons.prems(4) n Cons
    have len': "length (join_comma (map member_text kvs)) < m"
      by (simp add: member_text_length)
    have rec: "parse_members m (define_property (fst kv) (snd kv) acc)
            (join_comma (map member_text kvs) @ CHR ''}'' # rest) =
          Some (define_all (define_property (fst kv) (snd kv) acc) kvs, rest)"
      using Cons Cons.prems(2,3) len' by (intro Cons.IH) simp_all
    from parse_members_step [OF val [OF len number_stop_comma], of acc
        "join_comma (map member_text kvs) @ CHR ''}'' # rest"] rec Cons
    show ?thesis
      by (simp add: n skip_ws_comma define_all_def)
  qed
qed

lemma join_comma_start: "x = c # cs \<Longrightarrow> \<exists>cs'. join_comma (x # xs) = c # cs'"
  by (cases xs) simp_all

lemma parse_value_array:
  assumes "\<not> is_ws c" "c \<noteq> CHR '']''"
  shows "parse_value (Suc m) (CHR ''['' # c # cs) =
           (case parse_elements m (c # cs) of
              None \<Rightarrow> None
            | Some (vs, rest) \<Rightarrow> Some (JArray vs, rest))"
  using assms by (simp add: skip_ws_def is_ws_def)

lemma parse_value_object:
  "parse_value (Suc m) (CHR ''{'' # CHR 0x22 # cs) =
           (case parse_members m [] (CHR 0x22 # cs) of
              None \<Rightarrow> None
            | Some (kvs, rest) \<Rightarrow> Some (JObject kvs, rest))"
  by (simp add: skip_ws_def is_ws_def)

lemma parse_value_empty:
  "parse_value (Suc m) (CHR ''['' # CHR '']'' # rest) = Some (JArray [], rest)"
  "parse_value (Suc m) (CHR ''{'' # CHR ''}'' # rest) = Some (JObject [], rest)"
  by (simp_all add: skip_ws_def is_ws_def)

lemma parse_value_literal:
  "parse_value (Suc m) (''null'' @ rest) = Some (JNull, rest)"
  "parse_value (Suc m) (''true'' @ rest) = Some (JBool True, rest)"
  "parse_value (Suc m) (''false'' @ rest) = Some (JBool False, rest)"
  by (simp_all add: skip_ws_def is_ws_def literal_def)

lemma json_stringify_object:
  "json_stringify (JObject kvs) = CHR ''{'' # join_comma (map member_text kvs) @ ''}''"
proof -
  have "(\<lambda>(k, v). QuoteJSONString k @ '':'' @ json_stringify v) = member_text"
    by (rule ext) (simp add: member_text_def split: prod.split)
  then show ?thesis by simp
qed

text \<open>Every value reads back, by induction on the value.\<close>

declare parse_value.simps [simp del]

lemma parse_value_stringify:
  "representable v \<Longrightarrow> length (json_stringify v) \<le> n \<Longrightarrow> number_stop rest \<Longrightarrow>
     parse_value n (json_stringify v @ rest) = Some (v, rest)"
proof (induction v arbitrary: n rest)
  case JNull
  then obtain m where "n = Suc m" by (cases n) simp_all
  then show ?case using parse_value_literal(1) [of m rest] by simp
next
  case (JBool b)
  then obtain m where "n = Suc m" by (cases n) (simp_all split: if_splits)
  then show ?case
    using parse_value_literal(2) [of m rest] parse_value_literal(3) [of m rest] by simp
next
  case (JNumber i)
  then have "0 < length (json_stringify (JNumber i))"
    by (intro json_stringify_not_empty)
  with JNumber.prems(2) have "0 < n"
    by linarith
  then obtain m where "n = Suc m" by (cases n) simp_all
  with JNumber show ?case by (simp add: parse_value_number)
next
  case (JString s)
  then obtain m where "n = Suc m" by (cases n) (simp_all add: QuoteJSONString_def)
  then show ?case by (simp add: parse_value_string)
next
  case (JArray vs)
  from JArray.prems(2) obtain m where n: "n = Suc m" by (cases n) simp_all
  show ?case
  proof (cases vs)
    case Nil
    then show ?thesis by (simp add: n parse_value_empty)
  next
    case (Cons v vs')
    have all: "\<forall>v \<in> set vs. representable v"
      using JArray.prems(1) by simp
    have ih: "\<forall>v \<in> set vs. \<forall>n rest. length (json_stringify v) \<le> n \<longrightarrow> number_stop rest \<longrightarrow>
        parse_value n (json_stringify v @ rest) = Some (v, rest)"
      using JArray.IH all by blast
    have len: "length (join_comma (map json_stringify vs)) < m"
      using JArray.prems(2) n by simp
    have elems: "parse_elements m (join_comma (map json_stringify vs) @ CHR '']'' # rest) =
        Some (vs, rest)"
      using Cons all ih len by (intro parse_elements_join) simp_all
    from all Cons json_stringify_start [of v] obtain c cs
      where v: "json_stringify v = c # cs" and c: "\<not> is_ws c" "c \<noteq> CHR '']''"
      by auto
    from join_comma_start [OF v, of "map json_stringify vs'"] Cons obtain cs'
      where j: "join_comma (map json_stringify vs) = c # cs'"
      by auto
    from parse_value_array [OF c, of m "cs' @ CHR '']'' # rest"] elems show ?thesis
      by (simp add: n j)
  qed
next
  case (JObject kvs)
  from JObject.prems(2) obtain m where n: "n = Suc m" by (cases n) simp_all
  show ?case
  proof (cases kvs)
    case Nil
    then show ?thesis by (simp add: n parse_value_empty)
  next
    case (Cons kv kvs')
    have all: "\<forall>kv \<in> set kvs. representable (snd kv)"
      using JObject.prems(1) by simp
    have ih: "\<forall>kv \<in> set kvs. \<forall>n rest. length (json_stringify (snd kv)) \<le> n \<longrightarrow>
        number_stop rest \<longrightarrow>
        parse_value n (json_stringify (snd kv) @ rest) = Some (snd kv, rest)"
    proof (intro ballI allI impI)
      fix kv n rest
      assume kv: "kv \<in> set kvs" and "length (json_stringify (snd kv)) \<le> n" "number_stop rest"
      moreover have "snd kv \<in> Basic_BNFs.snds kv"
        by (cases kv) simp
      moreover have "representable (snd kv)"
        using all kv by simp
      ultimately show "parse_value n (json_stringify (snd kv) @ rest) = Some (snd kv, rest)"
        by (intro JObject.IH)
    qed
    have len: "length (join_comma (map member_text kvs)) < m"
      using JObject.prems(2) n unfolding json_stringify_object by simp
    have members: "parse_members m [] (join_comma (map member_text kvs) @ CHR ''}'' # rest) =
        Some (define_all [] kvs, rest)"
      using Cons all ih len by (intro parse_members_join) simp_all
    have same: "define_all [] kvs = kvs"
      using JObject.prems(1) define_all_ordered [of "[]" kvs] by simp
    obtain cs where k: "member_text kv = CHR 0x22 # cs"
      using member_text_start by blast
    from join_comma_start [OF k, of "map member_text kvs'"] Cons obtain cs'
      where j: "join_comma (map member_text kvs) = CHR 0x22 # cs'"
      by auto
    from parse_value_object [of m "cs' @ CHR ''}'' # rest"] members same show ?thesis
      unfolding json_stringify_object n j by simp
  qed
qed

lemma json_parse_stringify: "representable v \<Longrightarrow> json_parse (json_stringify v) = Some v"
  using parse_value_stringify [of v "Suc (length (json_stringify v))" "[]"]
  by (simp add: json_parse_def number_stop_end skip_ws_def)

subsection \<open>The frame on the wire\<close>

text \<open>
  C8. On a platform whose \<^verbatim>\<open>JSON.stringify\<close> is the one modelled above, an \<^verbatim>\<open>emit\<close>
  with a target publishes, on the channel of the target, the JSON text of the array of
  the event and the data; and \<^verbatim>\<open>JSON.parse\<close> of that text is the array of the same
  event and the same data, for every event and data that are values of the language
  within the model: \<^verbatim>\<open>null\<close>, booleans, safe integers, strings, arrays and nested
  objects.
\<close>

theorem emit_frame_round_trip:
  assumes "targetRoom this = Some room" and "room \<noteq> []"
    and "representable event" and "representable data"
  shows "publish_calls (snd (snd (emit (platform publish smembers) event data (this, w)))) =
           publish_calls w @
             [(prefix this @ '':'' @ room, json_stringify (JArray [event, data]))] \<and>
         json_parse (json_stringify (JArray [event, data])) = Some (JArray [event, data])"
proof -
  have "JSON_stringify (platform publish smembers) [event, data] =
          Inr (json_stringify (JArray [event, data]))"
    by (simp add: platform_def)
  with assms(1,2)
  have "emitted (platform publish smembers) event data this =
          [(prefix this @ '':'' @ room, json_stringify (JArray [event, data]))]"
    by (simp add: emitted_def)
  then have sent:
    "publish_calls (snd (snd (emit (platform publish smembers) event data (this, w)))) =
       publish_calls w @
         [(prefix this @ '':'' @ room, json_stringify (JArray [event, data]))]"
    by (simp add: emit_publish_calls)
  from assms(3,4) have "representable (JArray [event, data])"
    by simp
  then have "json_parse (json_stringify (JArray [event, data])) = Some (JArray [event, data])"
    by (rule json_parse_stringify)
  with sent show ?thesis
    by (simp only: simp_thms)
qed

lemma array_index_letters:
  "array_index ''msg'' = None" "array_index ''seq'' = None"
  by (simp_all add: array_index_def is_digit_def)

lemma stringify_chat_frame:
  \<open>json_stringify
     (JArray [JString ''chat'',
              JObject [(''msg'', JString ''hi''),
                       (''seq'', JArray [JNumber 42, JBool True, JNull])]]) =
   ''["chat",{"msg":"hi","seq":[42,true,null]}]''\<close>
  by (simp add: QuoteJSONString_def quote_code_unit_def number_to_string_def
      decimal.simps [of 42] decimal.simps [of 4] digit_char_def char_of_eq_iff)

theorem emit_frame_round_trip_witness:
  \<open>targetRoom (fst (to ''lobby'' new_io)) = Some ''lobby'' \<and>
   representable (JString ''chat'') \<and>
   representable (JObject [(''msg'', JString ''hi''),
                           (''seq'', JArray [JNumber 42, JBool True, JNull])]) \<and>
   publish_calls (snd (snd (emit store_up (JString ''chat'')
      (JObject [(''msg'', JString ''hi''), (''seq'', JArray [JNumber 42, JBool True, JNull])])
      (to ''lobby'' new_io)))) =
     [(''io:lobby'', ''["chat",{"msg":"hi","seq":[42,true,null]}]'')] \<and>
   json_parse ''["chat",{"msg":"hi","seq":[42,true,null]}]'' =
     Some (JArray [JString ''chat'',
                   JObject [(''msg'', JString ''hi''),
                            (''seq'', JArray [JNumber 42, JBool True, JNull])]])\<close>
proof -
  let ?io = "(fst new_io)\<lparr> targetRoom := Some ''lobby'' \<rparr>"
  let ?data = "JObject [(''msg'', JString ''hi''),
                        (''seq'', JArray [JNumber 42, JBool True, JNull])]"
  have target: "targetRoom ?io = Some ''lobby''" and room: "''lobby'' \<noteq> []"
    by simp_all
  have event: "representable (JString ''chat'')"
    by simp
  have data: "representable ?data"
    by (simp add: precedes_def array_index_letters)
  have calls: "publish_calls (snd new_io) = []" and pre: "prefix ?io = ''io''"
    by (simp_all add: new_io_def constructor_def)
  from emit_frame_round_trip [OF target room event data, of "\<lambda>channel message. Inr 1"
      "\<lambda>key. if key = ''io:lobby:clients'' then Inr [''c1'', ''c2''] else Inr []" "snd new_io"]
  show ?thesis
    unfolding stringify_chat_frame
    by (simp add: to_lobby store_up_def calls pre event data del: representable.simps)
qed

end
